theory Spec2Isabelle
  imports Complex_Main
begin

section \<open>Python notions shared by match.py and upload.py\<close>

text \<open>
  Python integers are unbounded: indices that the code computes with \<open>divmod\<close> are
  \<open>int\<close>, counts and list positions are \<open>nat\<close>.  A Python \<open>str\<close> is the list of its
  Unicode code points; \<open>str\<close> turns an ASCII literal into one.  A raise or a \<open>sys.exit\<close>
  of the source is a value of \<open>error\<close>; failures of the network and of the file system
  are outside the model.
\<close>

type_synonym py_str = "nat list"

definition str :: "string \<Rightarrow> py_str" where
  "str s = map of_char s"

datatype error =
    SystemExit py_str
  | IndexError
  | ValueError
  | AttributeError
  | JSONDecodeError
  | NonUniqueLabel

text \<open>
  \<open>str.strip()\<close> removes leading and trailing white space: the code points for which
  \<open>str.isspace\<close> holds.  These are U+0009 to U+000D, U+001C to U+001F, U+0020, U+0085,
  U+00A0, U+1680, U+2000 to U+200A, U+2028, U+2029, U+202F, U+205F and U+3000.
\<close>

definition is_space :: "nat \<Rightarrow> bool" where
  "is_space c = (c \<in> set [0x0009, 0x000A, 0x000B, 0x000C, 0x000D,
                            0x001C, 0x001D, 0x001E, 0x001F, 0x0020, 0x0085, 0x00A0, 0x1680,
                            0x2000, 0x2001, 0x2002, 0x2003, 0x2004, 0x2005, 0x2006, 0x2007,
                            0x2008, 0x2009, 0x200A, 0x2028, 0x2029, 0x202F, 0x205F, 0x3000])"

definition strip :: "py_str \<Rightarrow> py_str" where
  "strip s = rev (dropWhile is_space (rev (dropWhile is_space s)))"

text \<open>\<open>list.index(x)\<close>: the first position of \<open>x\<close>; \<open>None\<close> stands for its ValueError.\<close>

fun index_of :: "'a \<Rightarrow> 'a list \<Rightarrow> nat option" where
  "index_of x [] = None"
| "index_of x (y # ys) =
     (if y = x then Some 0 else map_option Suc (index_of x ys))"

text \<open>
  The decimal rendering of a non-negative integer inside an f-string; the digits are the
  code points from 48 on.
\<close>

definition digit_char :: "nat \<Rightarrow> nat" where
  "digit_char d = 48 + d"

function str_nat :: "nat \<Rightarrow> py_str" where
  "str_nat n = (if n < 10 then [digit_char n] else str_nat (n div 10) @ [digit_char (n mod 10)])"
  by pat_completeness auto
termination
  by (relation "measure id") auto

declare str_nat.simps [simp del]


section \<open>match.py: column addressing\<close>

text \<open>
  \<open>col_letter\<close> is a \<open>while\<close> loop on an unbounded integer with no guard on its
  argument, so the loop is a partial function: \<open>None\<close> means that the loop never
  leaves.  The source has no \<open>raise\<close> here; a returned label is \<open>Some\<close>.  The
  remainder of \<open>divmod\<close> by 26 is never negative, so \<open>chr(65 + rem)\<close> is the code
  point \<open>65 + rem\<close>.
\<close>

partial_function (option) col_letter_loop :: "int \<Rightarrow> py_str \<Rightarrow> py_str option" where
  "col_letter_loop idx_1based res =
     (if idx_1based \<noteq> 0
      then col_letter_loop ((idx_1based - 1) div 26)
             (nat (65 + (idx_1based - 1) mod 26) # res)
      else Some res)"

declare col_letter_loop.simps [code]

definition col_letter :: "int \<Rightarrow> py_str option" where
  "col_letter idx_1based = col_letter_loop idx_1based []"

section \<open>match.py: configuration and the remote worksheet\<close>

definition Q4_LINK_HEADER :: py_str where
  "Q4_LINK_HEADER = str ''Github Links''"

definition Q4_STATUS_COL_N :: nat where
  "Q4_STATUS_COL_N = 13"

definition Q2_LINK_HEADER :: py_str where
  "Q2_LINK_HEADER = str ''Link''"

definition Q2_STATUS_HEADER :: py_str where
  "Q2_STATUS_HEADER = str ''Validity status''"

definition UPLOAD_CHUNK :: nat where
  "UPLOAD_CHUNK = 2000"

text \<open>
  The worksheet is remote.  What the program does to it is the list of the mutating calls
  it issues, in the order of issue; \<open>get_all_values\<close> only reads and is an input of the
  model.  \<open>'c\<close> is the type of the cell values a call carries.
\<close>

datatype 'c grid_call =
    Add_cols nat
  | Update_cell nat nat py_str
  | Update "'c list list" py_str
  | Clear
  | Append_row "'c list"
  | Append_rows "'c list list"
  | Add_worksheet py_str

text \<open>
  A pandas DataFrame with the default index 0, 1, ...: the column labels and the rows of
  cells.  In match.py a cell is a str, or missing (\<open>None\<close>) where pandas has padded a
  short row.
\<close>

record 'c dataframe =
  columns :: "py_str list"
  cells :: "'c list list"

type_synonym cell = "py_str option"

text \<open>The positions of a label among the column labels.\<close>

definition positions :: "py_str \<Rightarrow> py_str list \<Rightarrow> nat list" where
  "positions name cols = filter (\<lambda>j. cols ! j = name) [0..<length cols]"


section \<open>match.py: table loader and mapping builder\<close>

text \<open>
  \<open>pd.DataFrame(rows[1:], columns=rows[0])\<close>: \<open>rows[0]\<close> raises IndexError on an empty
  list; pandas pads the rows of a list of lists to the longest row with missing values and
  raises ValueError when that width is not the number of column labels; an empty list
  of rows gives the empty table.
\<close>

definition pad_row :: "nat \<Rightarrow> py_str list \<Rightarrow> cell list" where
  "pad_row n r = map Some r @ replicate (n - length r) None"

definition ws_to_df :: "py_str list list \<Rightarrow> error + cell dataframe" where
  "ws_to_df rows =
     (case rows of
        [] \<Rightarrow> Inl IndexError
      | header # body \<Rightarrow>
          if body \<noteq> [] \<and> fold max (map length body) 0 \<noteq> length header then Inl ValueError
          else Inr \<lparr>columns = header, cells = map (pad_row (length header)) body\<rparr>)"

text \<open>The loop of \<open>build_q4_mapping\<close> over \<open>rows[1:]\<close>; the dictionary is a map.\<close>

fun q4_loop :: "nat \<Rightarrow> py_str list list \<Rightarrow> (py_str \<rightharpoonup> py_str) \<Rightarrow> (py_str \<rightharpoonup> py_str)" where
  "q4_loop link_idx [] mapping = mapping"
| "q4_loop link_idx (r # rows) mapping =
     (if length r \<le> max link_idx Q4_STATUS_COL_N then q4_loop link_idx rows mapping
      else
        let link = strip (r ! link_idx);
            status = strip (r ! Q4_STATUS_COL_N)
        in if link \<noteq> [] then q4_loop link_idx rows (mapping(link \<mapsto> status))
           else q4_loop link_idx rows mapping)"

definition build_q4_mapping :: "py_str list list \<Rightarrow> error + (py_str \<rightharpoonup> py_str)" where
  "build_q4_mapping rows =
     (case rows of
        [] \<Rightarrow> Inl IndexError
      | header # body \<Rightarrow>
          (case index_of Q4_LINK_HEADER header of
             None \<Rightarrow> Inl (SystemExit (str ''[ERROR] Column 'Github Links' not found in Q4 sheet.''))
           | Some link_idx \<Rightarrow> Inr (q4_loop link_idx body Map.empty)))"


section \<open>match.py: schema reconciler\<close>

text \<open>
  \<open>Index.get_loc\<close> returns an integer for a label that occurs once; for a repeated
  label it returns a slice or a mask, which is not an integer.  The caller tests
  membership first, so the KeyError of an absent label is never reached.
\<close>

datatype loc = Int_loc nat | Multi_loc "nat list"

definition get_loc :: "py_str list \<Rightarrow> py_str \<Rightarrow> loc" where
  "get_loc cols name =
     (case positions name cols of [j] \<Rightarrow> Int_loc j | ps \<Rightarrow> Multi_loc ps)"

definition ensure_status_column ::
  "cell dataframe \<Rightarrow> cell dataframe \<times> loc \<times> cell grid_call list" where
  "ensure_status_column df_q2 =
     (if Q2_STATUS_HEADER \<in> set (columns df_q2)
      then (df_q2, get_loc (columns df_q2) Q2_STATUS_HEADER, [])
      else
        let new_col_idx_1 = length (columns df_q2) + 1
        in (df_q2\<lparr>columns := columns df_q2 @ [Q2_STATUS_HEADER],
                  cells := map (\<lambda>r. r @ [Some []]) (cells df_q2)\<rparr>,
            Int_loc (new_col_idx_1 - 1),
            [Add_cols 1, Update_cell 1 new_col_idx_1 Q2_STATUS_HEADER]))"


section \<open>match.py: merge engine\<close>

text \<open>
  \<open>row.get(Q2_LINK_HEADER, "").strip()\<close>: the default is the empty str when the
  table has no such label; a missing value has no \<open>strip\<close>, and for a repeated label
  \<open>get\<close> returns a Series, which has none either (AttributeError).  A row of a
  DataFrame has one cell for each label; a cell that a row of the model lacks is read as
  missing.
\<close>

definition row_link :: "py_str list \<Rightarrow> cell list \<Rightarrow> error + py_str" where
  "row_link cols row =
     (case positions Q2_LINK_HEADER cols of
        [] \<Rightarrow> Inr (strip [])
      | [j] \<Rightarrow>
          (case (if j < length row then row ! j else None) of
             Some s \<Rightarrow> Inr (strip s)
           | None \<Rightarrow> Inl AttributeError)
      | _ \<Rightarrow> Inl AttributeError)"

text \<open>\<open>df.at[idx, label] = v\<close> writes row \<open>idx\<close> in every column that has the label.\<close>

definition df_at_set :: "'c dataframe \<Rightarrow> nat \<Rightarrow> py_str \<Rightarrow> 'c \<Rightarrow> 'c dataframe" where
  "df_at_set df idx name v =
     df\<lparr>cells := (cells df)[idx := fold (\<lambda>j r. r[j := v]) (positions name (columns df))
                                      (cells df ! idx)]\<rparr>"

text \<open>
  The loop over \<open>df_q2.iterrows()\<close>, with the table and the counter \<open>matches\<close> as its
  state.  An exception leaves the loop at once.
\<close>

function merge_loop ::
  "(py_str \<rightharpoonup> py_str) \<Rightarrow> cell dataframe \<Rightarrow> nat \<Rightarrow> nat \<Rightarrow> error + (cell dataframe \<times> nat)" where
  "merge_loop link_to_status df_q2 idx matches =
     (if idx < length (cells df_q2) then
        (case row_link (columns df_q2) (cells df_q2 ! idx) of
           Inl e \<Rightarrow> Inl e
         | Inr link \<Rightarrow>
             (case link_to_status link of
                Some status \<Rightarrow>
                  merge_loop link_to_status
                    (df_at_set df_q2 idx Q2_STATUS_HEADER (Some status)) (idx + 1) (matches + 1)
              | None \<Rightarrow> merge_loop link_to_status df_q2 (idx + 1) matches))
      else Inr (df_q2, matches))"
  by pat_completeness auto
termination
  by (relation "measure (\<lambda>(m, df, idx, k). length (cells df) - idx)")
     (auto simp: df_at_set_def)

declare merge_loop.simps [simp del]


section \<open>match.py: chunked batch writer and main flow\<close>

text \<open>
  The loop \<open>for i in range(0, total, chunk)\<close> of \<open>main\<close>, from offset \<open>i\<close> on; it
  returns the \<open>update\<close> calls it issues.  \<open>values[i : i + chunk]\<close> is
  \<open>take chunk (drop i values)\<close>.  A chunk is never empty, so \<open>end_row\<close> is not below
  \<open>start_row\<close>.  The step is the chunk size, 2000 in \<open>main\<close>; for a step 0, where
  \<open>range\<close> raises ValueError, the model issues no call.
\<close>

function update_loop :: "nat \<Rightarrow> py_str \<Rightarrow> 'c list list \<Rightarrow> nat \<Rightarrow> 'c grid_call list" where
  "update_loop chunk colLtr vals i =
     (if 0 < chunk \<and> i < length vals then
        (let chunk_vals = take chunk (drop i vals);
             start_row = i + 2;
             end_row = start_row + length chunk_vals - 1;
             rng = colLtr @ str_nat start_row @ str '':'' @ colLtr @ str_nat end_row
         in Update chunk_vals rng # update_loop chunk colLtr vals (i + chunk))
      else [])"
  by pat_completeness auto
termination
  by (relation "measure (\<lambda>(chunk, colLtr, vals, i). length vals - i)") auto

declare update_loop.simps [simp del]

text \<open>
  \<open>main\<close> of match.py.  Its inputs are whether the key file exists and what
  \<open>get_all_values\<close> returns for the two worksheets; its result is how the run ends and
  the calls issued on the Q2 worksheet (the Q4 worksheet is only read).  A repeated status
  label makes \<open>status_col_zero + 1\<close> or the \<open>while\<close> of \<open>col_letter\<close> raise before
  any \<open>update\<close>; both are the one error \<open>NonUniqueLabel\<close> here.
\<close>

definition match_main ::
  "bool \<Rightarrow> py_str list list \<Rightarrow> py_str list list \<Rightarrow> ((error + unit) \<times> cell grid_call list) option" where
  "match_main key_exists q4_rows q2_rows =
     (if \<not> key_exists
      then Some (Inl (SystemExit (str ''[FATAL] Service-account key file not found.'')), [])
      else
        case build_q4_mapping q4_rows of
          Inl e \<Rightarrow> Some (Inl e, [])
        | Inr link_to_status \<Rightarrow>
       (case ws_to_df q2_rows of
          Inl e \<Rightarrow> Some (Inl e, [])
        | Inr df_q2 \<Rightarrow>
       (case ensure_status_column df_q2 of
          (df_q2, status_loc, calls) \<Rightarrow>
       (case status_loc of
          Multi_loc ps \<Rightarrow> Some (Inl NonUniqueLabel, calls)
        | Int_loc status_col_zero \<Rightarrow>
       (let status_col_one = status_col_zero + 1 in
       (case merge_loop link_to_status df_q2 0 0 of
          Inl e \<Rightarrow> Some (Inl e, calls)
        | Inr (df_q2, matches) \<Rightarrow>
       (case col_letter (int status_col_one) of
          None \<Rightarrow> None
        | Some colLtr \<Rightarrow>
       (let vals = map (\<lambda>r. [r ! status_col_zero]) (cells df_q2)
        in Some (Inr (), calls @ update_loop UPLOAD_CHUNK colLtr vals 0)))))))))"


section \<open>upload.py: configuration and the record flattener\<close>

definition WORKSHEET_NAME :: py_str where
  "WORKSHEET_NAME = str ''Trufflehog Data''"

text \<open>\<open>UPLOAD_CHUNK\<close> of upload.py; match.py has a constant of the same name.\<close>

definition upload_UPLOAD_CHUNK :: nat where
  "upload_UPLOAD_CHUNK = 1000"

text \<open>
  What \<open>json.loads\<close> returns: \<open>None\<close>, a bool, an int, a float, a str, a list or a
  dict.  A dict is the list of its items, with pairwise distinct keys.  \<open>json.loads\<close>
  itself is a parameter \<open>json_loads\<close> of the model: it returns the document, or the
  exception that it raises.
\<close>

datatype json =
    JNull
  | JBool bool
  | JInt int
  | JFloat real
  | JStr py_str
  | JArr "json list"
  | JObj "(py_str \<times> json) list"

text \<open>
  \<open>obj.get(key, default)\<close>.  Of the values above only a dict has a method \<open>get\<close>; on
  any other value the attribute lookup raises AttributeError.
\<close>

definition py_get :: "json \<Rightarrow> py_str \<Rightarrow> json \<Rightarrow> error + json" where
  "py_get obj key dflt =
     (case obj of
        JObj items \<Rightarrow> Inr (case map_of items key of Some v \<Rightarrow> v | None \<Rightarrow> dflt)
      | _ \<Rightarrow> Inl AttributeError)"

text \<open>The truth value of a Python object, and \<open>a or b\<close>.\<close>

fun truthy :: "json \<Rightarrow> bool" where
  "truthy JNull = False"
| "truthy (JBool b) = b"
| "truthy (JInt i) = (i \<noteq> 0)"
| "truthy (JFloat x) = (x \<noteq> 0)"
| "truthy (JStr s) = (s \<noteq> [])"
| "truthy (JArr xs) = (xs \<noteq> [])"
| "truthy (JObj items) = (items \<noteq> [])"

definition py_or :: "json \<Rightarrow> json \<Rightarrow> json" where
  "py_or a b = (if truthy a then a else b)"

text \<open>An exception ends the evaluation: the rest runs only on a value.\<close>

definition bind_err :: "error + 'a \<Rightarrow> ('a \<Rightarrow> error + 'b) \<Rightarrow> error + 'b" where
  "bind_err r f = (case r of Inl e \<Rightarrow> Inl e | Inr x \<Rightarrow> f x)"

text \<open>
  \<open>parse_line\<close>: \<open>Inr None\<close> is the returned \<open>None\<close>, \<open>Inr (Some rec)\<close> the returned
  dict, with its items in the order of the dict display, and \<open>Inl\<close> an exception that
  leaves the function.  Only JSONDecodeError is caught; any other exception of
  \<open>json.loads\<close> leaves the function too.
\<close>

definition parse_line ::
  "(py_str \<Rightarrow> error + json) \<Rightarrow> py_str \<Rightarrow> error + (py_str \<times> json) list option" where
  "parse_line json_loads raw =
     (let raw = strip raw in
      if raw = [] then Inr None
      else
        case json_loads raw of
          Inl e \<Rightarrow> if e = JSONDecodeError then Inr None else Inl e
        | Inr obj \<Rightarrow>
            bind_err (py_get obj (str ''SourceMetadata'') (JObj [])) (\<lambda>source_metadata.
            bind_err (py_get source_metadata (str ''Data'') (JObj [])) (\<lambda>data.
            bind_err (py_get data (str ''Github'') (JObj [])) (\<lambda>gh.
            bind_err (py_get gh (str ''link'') JNull) (\<lambda>link_v.
            bind_err (py_get gh (str ''repository'') JNull) (\<lambda>repository_v.
            bind_err (py_get gh (str ''commit'') JNull) (\<lambda>commit_v.
            bind_err (py_get gh (str ''file'') JNull) (\<lambda>file_v.
            bind_err (py_get gh (str ''line'') JNull) (\<lambda>line_v.
            bind_err (py_get gh (str ''timestamp'') JNull) (\<lambda>timestamp_v.
            bind_err (py_get gh (str ''email'') JNull) (\<lambda>email_v.
            bind_err (py_get obj (str ''DetectorName'') JNull) (\<lambda>detector_name_v.
            bind_err (py_get obj (str ''DetectorType'') JNull) (\<lambda>detector_type_v.
            bind_err (py_get obj (str ''Raw'') JNull) (\<lambda>raw_v.
            bind_err (py_get obj (str ''RawV2'') JNull) (\<lambda>raw_v2.
            bind_err (py_get obj (str ''Verified'') JNull) (\<lambda>verified_v.
            Inr (Some
              [(str ''link'', link_v),
               (str ''repository'', repository_v),
               (str ''commit'', commit_v),
               (str ''file'', file_v),
               (str ''line'', line_v),
               (str ''timestamp'', timestamp_v),
               (str ''email'', email_v),
               (str ''detector_name'', detector_name_v),
               (str ''detector_type'', detector_type_v),
               (str ''raw_secret'', py_or raw_v raw_v2),
               (str ''verified'', verified_v)])))))))))))))))))"


section \<open>upload.py: loading the findings\<close>

text \<open>
  The loop of \<open>load_findings\<close> over the lines of the file; \<open>if rec:\<close> holds for a
  dict that is not empty.
\<close>

fun load_loop ::
  "(py_str \<Rightarrow> error + json) \<Rightarrow> py_str list \<Rightarrow> (py_str \<times> json) list list
     \<Rightarrow> error + (py_str \<times> json) list list" where
  "load_loop json_loads [] records = Inr records"
| "load_loop json_loads (raw # fh) records =
     (case parse_line json_loads raw of
        Inl e \<Rightarrow> Inl e
      | Inr None \<Rightarrow> load_loop json_loads fh records
      | Inr (Some rec) \<Rightarrow>
          if rec \<noteq> [] then load_loop json_loads fh (records @ [rec])
          else load_loop json_loads fh records)"

text \<open>
  \<open>pd.DataFrame(records)\<close> for dicts that all have the same keys in the same order: the
  labels are these keys, a row holds the values of one dict.  The conversion of cell
  values that pandas makes for a column of numbers is not modelled.
\<close>

definition DataFrame :: "(py_str \<times> json) list list \<Rightarrow> json dataframe" where
  "DataFrame records =
     \<lparr>columns = (case records of [] \<Rightarrow> [] | r # _ \<Rightarrow> map fst r),
      cells = map (map snd) records\<rparr>"

text \<open>The dash of the message is the code point U+2013.\<close>

definition load_findings ::
  "(py_str \<Rightarrow> error + json) \<Rightarrow> py_str list \<Rightarrow> error + json dataframe" where
  "load_findings json_loads fh =
     (case load_loop json_loads fh [] of
        Inl e \<Rightarrow> Inl e
      | Inr records \<Rightarrow>
          if records = []
          then Inl (SystemExit (str ''[INFO] No findings found '' @ [0x2013]
                                @ str '' exiting.''))
          else Inr (DataFrame records))"


section \<open>upload.py: the upload and main flow\<close>

text \<open>
  \<open>connect_sheet\<close> returns the worksheet; what the model keeps of it is the call it
  issues when the spreadsheet has no worksheet of that name.
\<close>

definition connect_sheet :: "bool \<Rightarrow> json grid_call list" where
  "connect_sheet ws_found = (if ws_found then [] else [Add_worksheet WORKSHEET_NAME])"

text \<open>
  The loop \<open>for i in range(0, total, chunk)\<close> of \<open>upload_dataframe\<close>, from offset \<open>i\<close>
  on; \<open>df.iloc[i : i + chunk].values.tolist()\<close> is \<open>take chunk (drop i rows)\<close>.
  The step is the chunk size, 1000 in \<open>upload_dataframe\<close>; for a step 0 the model
  issues no call.
\<close>

function append_loop :: "nat \<Rightarrow> 'c list list \<Rightarrow> nat \<Rightarrow> 'c grid_call list" where
  "append_loop chunk df_rows i =
     (if 0 < chunk \<and> i < length df_rows then
        Append_rows (take chunk (drop i df_rows)) # append_loop chunk df_rows (i + chunk)
      else [])"
  by pat_completeness auto
termination
  by (relation "measure (\<lambda>(chunk, df_rows, i). length df_rows - i)") auto

declare append_loop.simps [simp del]

definition upload_dataframe :: "json dataframe \<Rightarrow> json grid_call list" where
  "upload_dataframe df =
     Clear # Append_row (map JStr (columns df)) # append_loop upload_UPLOAD_CHUNK (cells df) 0"

text \<open>
  \<open>main\<close> of upload.py.  Its inputs are whether the key file exists, the lines of the
  input file and whether the spreadsheet has the worksheet; its result is how the run ends
  and the calls issued.
\<close>

definition upload_main ::
  "bool \<Rightarrow> (py_str \<Rightarrow> error + json) \<Rightarrow> py_str list \<Rightarrow> bool
     \<Rightarrow> (error + unit) \<times> json grid_call list" where
  "upload_main key_exists json_loads fh ws_found =
     (if \<not> key_exists
      then (Inl (SystemExit
             (str ''[FATAL] Service-account key 'aalok-spreadsheet_credentials.json' not found.'')), [])
      else
        case load_findings json_loads fh of
          Inl e \<Rightarrow> (Inl e, [])
        | Inr df \<Rightarrow> (Inr (), connect_sheet ws_found @ upload_dataframe df))"

text \<open>
  Modelled from the spec: the remote worksheet is not among the sources.  A grid is the
  list of its rows; \<open>clear\<close> removes every cell, and an append places its rows after the
  current last row.  The effect of the other calls is not needed and is left out
  (\<open>None\<close>).
\<close>

fun grid_apply :: "'c grid_call \<Rightarrow> 'c list list \<Rightarrow> 'c list list option" where
  "grid_apply Clear g = Some []"
| "grid_apply (Append_row r) g = Some (g @ [r])"
| "grid_apply (Append_rows rs) g = Some (g @ rs)"
| "grid_apply _ g = None"

fun grid_run :: "'c grid_call list \<Rightarrow> 'c list list \<Rightarrow> 'c list list option" where
  "grid_run [] g = Some g"
| "grid_run (c # cs) g = (case grid_apply c g of None \<Rightarrow> None | Some g' \<Rightarrow> grid_run cs g')"


section \<open>Notions used to state properties\<close>

text \<open>
  None of the following is part of the program.  The value of a label read as a bijective
  base-26 numeral, and the letters \<open>A\<close> to \<open>Z\<close>:
\<close>

definition col_index :: "py_str \<Rightarrow> int" where
  "col_index s = foldl (\<lambda>acc c. acc * 26 + (int c - 64)) 0 s"

definition upper_letter :: "nat \<Rightarrow> bool" where
  "upper_letter c = (65 \<le> c \<and> c \<le> 90)"

text \<open>Chunk \<open>k\<close> of a sequence, the number of chunks, and a range address.\<close>

definition chunk_at :: "nat \<Rightarrow> 'a list \<Rightarrow> nat \<Rightarrow> 'a list" where
  "chunk_at c vals k = take c (drop (k * c) vals)"

definition n_chunks :: "nat \<Rightarrow> nat \<Rightarrow> nat" where
  "n_chunks c n = (n + c - 1) div c"

definition range_address :: "py_str \<Rightarrow> nat \<Rightarrow> nat \<Rightarrow> py_str" where
  "range_address letter first_row last_row =
     letter @ str_nat first_row @ str '':'' @ letter @ str_nat last_row"

text \<open>
  The rows of the source table that the mapping builder does not skip: long enough for the
  key index and for the status index, with a trimmed key that is not empty.
\<close>

definition q4_kept :: "nat \<Rightarrow> py_str list \<Rightarrow> bool" where
  "q4_kept link_idx r =
     (\<not> (length r \<le> link_idx \<or> length r \<le> Q4_STATUS_COL_N) \<and> strip (r ! link_idx) \<noteq> [])"

text \<open>
  What the merge makes of one row, and whether the row counts as a match: its trimmed key
  is a key of the mapping.
\<close>

definition merged_row :: "(py_str \<rightharpoonup> py_str) \<Rightarrow> py_str list \<Rightarrow> cell list \<Rightarrow> cell list" where
  "merged_row m cols row =
     (case row_link cols row of
        Inl e \<Rightarrow> row
      | Inr link \<Rightarrow>
          (case m link of
             None \<Rightarrow> row
           | Some v \<Rightarrow> fold (\<lambda>j r. r[j := Some v]) (positions Q2_STATUS_HEADER cols) row))"

definition row_matches :: "(py_str \<rightharpoonup> py_str) \<Rightarrow> py_str list \<Rightarrow> cell list \<Rightarrow> bool" where
  "row_matches m cols row =
     (case row_link cols row of Inl e \<Rightarrow> False | Inr link \<Rightarrow> m link \<noteq> None)"

text \<open>The keys of the dict that \<open>parse_line\<close> returns, in their order.\<close>

definition FIELD_NAMES :: "py_str list" where
  "FIELD_NAMES = map str [''link'', ''repository'', ''commit'', ''file'', ''line'', ''timestamp'',
                          ''email'', ''detector_name'', ''detector_type'', ''raw_secret'',
                          ''verified'']"


section \<open>Properties of strings\<close>

text \<open>
  Literals are compared and joined as literals: \<open>str\<close> is injective and distributes over
  concatenation.
\<close>

lemma str_eq_iff [simp]: "str a = str b \<longleftrightarrow> a = b"
  by (simp add: str_def inj_map_eq_map inj_on_def)

lemma str_Nil [simp]: "str [] = []"
  by (simp add: str_def)

lemma str_eq_Nil [simp]: "str a = [] \<longleftrightarrow> a = []" "[] = str a \<longleftrightarrow> a = []"
  by (auto simp: str_def)

lemma str_join [simp]: "str a @ str b = str (a @ b)" "str a @ str b @ x = str (a @ b) @ x"
  by (simp_all add: str_def)

text \<open>
  \<open>strip\<close> removes a prefix and a suffix of white space, and what it leaves neither
  starts nor ends with white space.
\<close>

lemma strip_decomposition:
  "\<exists>pre post. s = pre @ strip s @ post
     \<and> (\<forall>c\<in>set pre. is_space c) \<and> (\<forall>c\<in>set post. is_space c)"
proof -
  let ?t = "dropWhile is_space s"
  have 1: "s = takeWhile is_space s @ ?t" by simp
  have 2: "rev ?t = takeWhile is_space (rev ?t) @ dropWhile is_space (rev ?t)" by simp
  have "?t = rev (dropWhile is_space (rev ?t)) @ rev (takeWhile is_space (rev ?t))"
    by (metis 2 rev_append rev_rev_ident)
  then have 3: "?t = strip s @ rev (takeWhile is_space (rev ?t))"
    by (simp add: strip_def)
  have "s = takeWhile is_space s @ strip s @ rev (takeWhile is_space (rev ?t))"
    using 1 3 by metis
  moreover have "\<forall>c\<in>set (takeWhile is_space s). is_space c"
    by (auto dest: set_takeWhileD)
  moreover have "\<forall>c\<in>set (rev (takeWhile is_space (rev ?t))). is_space c"
    by (auto dest: set_takeWhileD)
  ultimately show ?thesis by blast
qed

lemma strip_ends:
  assumes "strip s \<noteq> []"
  shows "\<not> is_space (hd (strip s)) \<and> \<not> is_space (last (strip s))"
proof -
  let ?t = "dropWhile is_space s"
  let ?u = "dropWhile is_space (rev ?t)"
  from assms have u: "?u \<noteq> []" by (simp add: strip_def)
  then have "\<not> is_space (hd ?u)" by (rule hd_dropWhile)
  then have l: "\<not> is_space (last (strip s))" using u by (simp add: strip_def last_rev)
  have t: "?t \<noteq> []"
  proof
    assume "?t = []"
    then have "?u = []" by (simp only: rev.simps dropWhile.simps)
    with u show False by simp
  qed
  then have ht: "\<not> is_space (hd ?t)" by (rule hd_dropWhile)
  from strip_decomposition [of s] obtain pre post where
    d: "s = pre @ strip s @ post" "\<forall>c\<in>set pre. is_space c" by blast
  have "dropWhile is_space (pre @ strip s @ post) = dropWhile is_space (strip s @ post)"
    using d(2) by (simp add: dropWhile_append2)
  with d(1) have "?t = dropWhile is_space (strip s @ post)" by simp
  then have "hd ?t = hd (dropWhile is_space (strip s @ post))" by simp
  show ?thesis
  proof (rule conjI [OF _ l])
    show "\<not> is_space (hd (strip s))"
    proof
      assume sp: "is_space (hd (strip s))"
      have "hd (strip s) = hd ?t"
      proof -
        have "strip s = rev ?u" by (simp add: strip_def)
        have "rev ?t = takeWhile is_space (rev ?t) @ ?u" by simp
        then have "?t = rev ?u @ rev (takeWhile is_space (rev ?t))"
          by (metis rev_append rev_rev_ident)
        with \<open>strip s = rev ?u\<close> assms show ?thesis by (metis hd_append2)
      qed
      with sp ht show False by simp
    qed
  qed
qed


section \<open>Properties of column addressing\<close>

lemma col_index_snoc: "col_index (s @ [c]) = col_index s * 26 + (int c - 64)"
  by (simp add: col_index_def)

lemma letter_code:
  assumes "0 \<le> r" "r < (26::int)"
  shows "int (nat (65 + r)) = 65 + r"
  using assms by simp

lemma letter_upper:
  assumes "0 \<le> r" "r < (26::int)"
  shows "upper_letter (nat (65 + r))"
  unfolding upper_letter_def using assms by arith

text \<open>
  From a non-negative index the loop returns: it prepends to the accumulator a label whose
  value is the index, made of upper-case letters, and empty only for index 0.
\<close>

lemma col_letter_loop_returns:
  "0 \<le> n \<Longrightarrow> \<exists>s. col_letter_loop n res = Some (s @ res) \<and> col_index s = n
      \<and> (\<forall>c\<in>set s. upper_letter c) \<and> (s = [] \<longleftrightarrow> n = 0)"
proof (induction "nat n" arbitrary: n res rule: less_induct)
  case less
  show ?case
  proof (cases "n = 0")
    case True
    then show ?thesis by (simp add: col_letter_loop.simps col_index_def)
  next
    case False
    define q where "q = (n - 1) div 26"
    define r where "r = (n - 1) mod 26"
    define c where "c = nat (65 + r)"
    have n1: "1 \<le> n" using False less.prems by simp
    have q0: "0 \<le> q" and qn: "nat q < nat n" using n1 by (auto simp: q_def)
    have r0: "0 \<le> r" and r26: "r < 26" by (auto simp: r_def)
    from less.hyps [OF qn q0, of "c # res"]
    obtain s where s: "col_letter_loop q (c # res) = Some (s @ c # res)" "col_index s = q"
      "\<forall>c\<in>set s. upper_letter c" by blast
    have step: "col_letter_loop n res = col_letter_loop q (c # res)"
      using False by (subst col_letter_loop.simps) (simp add: q_def r_def c_def)
    have "col_index (s @ [c]) = q * 26 + (r + 1)"
      using s(2) letter_code [OF r0 r26] by (simp add: col_index_snoc c_def)
    also have "\<dots> = n" by (simp add: q_def r_def)
    finally have "col_index (s @ [c]) = n" .
    moreover have "upper_letter c" unfolding c_def by (rule letter_upper [OF r0 r26])
    ultimately show ?thesis using step s False
      by (intro exI [of _ "s @ [c]"]) auto
  qed
qed

text \<open>The loop returns only from a non-negative index: from a negative one it never leaves.\<close>

lemma col_letter_loop_nonneg:
  assumes "col_letter_loop n res = Some y"
  shows "0 \<le> n"
proof (rule col_letter_loop.raw_induct [where P = "\<lambda>n res y. 0 \<le> n", OF _ assms])
  fix f :: "int \<Rightarrow> py_str \<Rightarrow> py_str option" and n res y
  assume IH: "\<And>n res y. f n res = Some y \<Longrightarrow> 0 \<le> n"
    and body: "(if n \<noteq> 0 then f ((n - 1) div 26) (nat (65 + (n - 1) mod 26) # res)
                else Some res) = Some y"
  show "0 \<le> n"
  proof (cases "n = 0")
    case True then show ?thesis by simp
  next
    case False
    with body IH have "0 \<le> (n - 1) div 26" by auto
    then show ?thesis by (simp add: pos_imp_zdiv_nonneg_iff)
  qed
qed

lemma col_letter_returns:
  "0 \<le> n \<Longrightarrow> \<exists>s. col_letter n = Some s \<and> col_index s = n
      \<and> (\<forall>c\<in>set s. upper_letter c) \<and> (s = [] \<longleftrightarrow> n = 0)"
  using col_letter_loop_returns [of n "[]"] by (simp add: col_letter_def)

lemma col_letter_negative: "n < 0 \<Longrightarrow> col_letter n = None"
  using col_letter_loop_nonneg [of n "[]"]
  by (cases "col_letter n") (auto simp: col_letter_def)

text \<open>
  C5.  The indices 1, 26, 27, 52 and 702 have the labels A, Z, AA, AZ and ZZ, and two
  distinct positive indices never have the same label.
\<close>

theorem col_letter_labels_injective:
  "col_letter 1 = Some (str ''A'') \<and> col_letter 26 = Some (str ''Z'') \<and> col_letter 27 = Some (str ''AA'')
   \<and> col_letter 52 = Some (str ''AZ'') \<and> col_letter 702 = Some (str ''ZZ'')
   \<and> (\<forall>m n. 1 \<le> m \<and> 1 \<le> n \<and> m \<noteq> n \<longrightarrow>
         (\<exists>a b. col_letter m = Some a \<and> col_letter n = Some b \<and> a \<noteq> b))"
proof -
  have ex: "col_letter 1 = Some (str ''A'')" "col_letter 26 = Some (str ''Z'')"
    "col_letter 27 = Some (str ''AA'')" "col_letter 52 = Some (str ''AZ'')" "col_letter 702 = Some (str ''ZZ'')"
    by (simp_all add: col_letter_def col_letter_loop.simps str_def)
  have inj: "\<exists>a b. col_letter m = Some a \<and> col_letter n = Some b \<and> a \<noteq> b"
    if "1 \<le> m" "1 \<le> n" "m \<noteq> n" for m n
  proof -
    from that col_letter_returns [of m] obtain a
      where a: "col_letter m = Some a" "col_index a = m" by auto
    from that col_letter_returns [of n] obtain b
      where b: "col_letter n = Some b" "col_index b = n" by auto
    from a b that have "a \<noteq> b" by auto
    with a b show ?thesis by blast
  qed
  from ex inj show ?thesis by blast
qed

theorem col_letter_labels_injective_witness:
  "(1::int) \<le> 1 \<and> (1::int) \<le> 27 \<and> (1::int) \<noteq> 27
   \<and> (\<exists>a b. col_letter 1 = Some a \<and> col_letter 27 = Some b \<and> a \<noteq> b)"
  using col_letter_labels_injective by (simp add: str_eq_iff)

text \<open>
  C6, as the code has it.  For every index from 1 on the conversion returns a non-empty
  label of upper-case letters.  There is no InvalidIndex: for index 0 it returns the empty
  label, and for a negative index the loop never leaves.
\<close>

theorem col_letter_defined:
  "(1 \<le> n \<longrightarrow> (\<exists>s. col_letter n = Some s \<and> s \<noteq> [] \<and> (\<forall>c\<in>set s. upper_letter c)))
   \<and> (n = 0 \<longrightarrow> col_letter n = Some [])
   \<and> (n < 0 \<longrightarrow> col_letter n = None)"
proof (intro conjI impI)
  assume "1 \<le> n"
  with col_letter_returns [of n]
  show "\<exists>s. col_letter n = Some s \<and> s \<noteq> [] \<and> (\<forall>c\<in>set s. upper_letter c)" by auto
next
  assume "n = 0"
  then show "col_letter n = Some []" by (simp add: col_letter_def col_letter_loop.simps)
next
  assume "n < 0"
  then show "col_letter n = None" by (rule col_letter_negative)
qed

theorem col_letter_defined_witness:
  "(1::int) \<le> 27 \<and> (\<exists>s. col_letter 27 = Some s \<and> s \<noteq> [] \<and> (\<forall>c\<in>set s. upper_letter c))
   \<and> col_letter 0 = Some [] \<and> (-1::int) < 0 \<and> col_letter (-1) = None"
  using col_letter_defined [of 27] col_letter_defined [of 0] col_letter_defined [of "-1"]
  by simp

text \<open>
  C6 as stated fails at index 0: it is below 1, and the conversion returns a label for it
  (the empty one) where the claim has an InvalidIndex error.
\<close>

theorem col_letter_zero_counterexample: "col_letter 0 = Some []"
  by (simp add: col_letter_def col_letter_loop.simps)


section \<open>Properties of the chunked batch writer\<close>

lemma below_n_chunks: "0 < c \<Longrightarrow> k < n_chunks c n \<longleftrightarrow> k * c < n"
proof -
  assume c: "0 < c"
  have "k < n_chunks c n \<longleftrightarrow> Suc k \<le> (n + c - 1) div c" by (simp add: n_chunks_def Suc_le_eq)
  also have "\<dots> \<longleftrightarrow> Suc k * c \<le> n + c - 1" using c by (simp add: less_eq_div_iff_mult_less_eq)
  also have "\<dots> \<longleftrightarrow> k * c < n" using c by auto
  finally show ?thesis .
qed

lemma update_loop_from:
  assumes c: "0 < c"
  shows "update_loop c L vals (j * c) =
    map (\<lambda>k. Update (chunk_at c vals k)
               (range_address L (k * c + 2) (k * c + 2 + length (chunk_at c vals k) - 1)))
        [j..<n_chunks c (length vals)]"
proof (induction "n_chunks c (length vals) - j" arbitrary: j)
  case 0
  then have "\<not> j < n_chunks c (length vals)" by simp
  then have "\<not> j * c < length vals" using below_n_chunks [OF c] by simp
  with 0 show ?case by (subst update_loop.simps) simp
next
  case (Suc d)
  then have j: "j < n_chunks c (length vals)" by simp
  then have lt: "j * c < length vals" using below_n_chunks [OF c] by simp
  from Suc have "d = n_chunks c (length vals) - Suc j" by simp
  from Suc.hyps(1) [OF this]
  have IH: "update_loop c L vals (j * c + c) =
    map (\<lambda>k. Update (chunk_at c vals k)
               (range_address L (k * c + 2) (k * c + 2 + length (chunk_at c vals k) - 1)))
        [Suc j..<n_chunks c (length vals)]" by (simp add: add.commute)
  show ?case
    using c lt j IH
    by (subst update_loop.simps) (simp add: Let_def upt_conv_Cons chunk_at_def range_address_def)
qed

lemma concat_chunks_from:
  assumes c: "0 < c"
  shows "concat (map (chunk_at c vals) [j..<n_chunks c (length vals)]) = drop (j * c) vals"
proof (induction "n_chunks c (length vals) - j" arbitrary: j)
  case 0
  then have "\<not> j < n_chunks c (length vals)" by simp
  then have "\<not> j * c < length vals" using below_n_chunks [OF c] by simp
  with 0 show ?case by simp
next
  case (Suc d)
  then have j: "j < n_chunks c (length vals)" by simp
  from Suc have "d = n_chunks c (length vals) - Suc j" by simp
  from Suc.hyps(1) [OF this]
  have IH: "concat (map (chunk_at c vals) [Suc j..<n_chunks c (length vals)]) = drop (j * c + c) vals"
    by (simp add: add.commute)
  have "take c (drop (j * c) vals) @ drop (j * c + c) vals = drop (j * c) vals"
    by (metis add.commute append_take_drop_id drop_drop)
  with j IH show ?case by (simp add: upt_conv_Cons chunk_at_def)
qed


lemma str_nat_rows:
  "str_nat 2 = str ''2''" "str_nat 3 = str ''3''" "str_nat 4 = str ''4''"
  "str_nat 2001 = str ''2001''" "str_nat 2002 = str ''2002''"
  "str_nat 4001 = str ''4001''" "str_nat 4002 = str ''4002''" "str_nat 5001 = str ''5001''"
  "str_nat (Suc (Suc 0)) = str ''2''" "str_nat (Suc (Suc (Suc 0))) = str ''3''"
  by (simp_all add: str_nat.simps digit_char_def str_def)

text \<open>
  C1.  With a chunk size \<open>c > 0\<close> the writer issues one \<open>update\<close> per chunk, in
  ascending offset order: call \<open>k\<close> carries the values at offsets \<open>k * c\<close> up to
  \<open>k * c + c\<close> (at most \<open>c\<close> of them, at least one) and addresses the rows
  \<open>k * c + 2\<close> to \<open>k * c + 2 + len(chunk) - 1\<close> of the column.  The chunks in call
  order make up the sequence.  For 5000 values and the chunk size 2000 of match.py these
  are three calls, on the rows 2 to 2001, 2002 to 4001 and 4002 to 5001.
\<close>

theorem update_loop_chunks:
  "(0 < c \<longrightarrow>
      update_loop c L vals 0 =
        map (\<lambda>k. Update (chunk_at c vals k)
                   (range_address L (k * c + 2) (k * c + 2 + length (chunk_at c vals k) - 1)))
            [0..<n_chunks c (length vals)]
      \<and> (\<forall>k<n_chunks c (length vals). chunk_at c vals k \<noteq> [] \<and> length (chunk_at c vals k) \<le> c)
      \<and> concat (map (chunk_at c vals) [0..<n_chunks c (length vals)]) = vals)
   \<and> (length vals = 5000 \<longrightarrow>
      update_loop UPLOAD_CHUNK L vals 0 =
        [Update (take 2000 vals) (L @ str ''2:'' @ L @ str ''2001''),
         Update (take 2000 (drop 2000 vals)) (L @ str ''2002:'' @ L @ str ''4001''),
         Update (take 2000 (drop 4000 vals)) (L @ str ''4002:'' @ L @ str ''5001'')]
      \<and> take 2000 vals @ take 2000 (drop 2000 vals) @ take 2000 (drop 4000 vals) = vals)"
proof (intro conjI impI allI)
  assume c: "0 < c"
  show "update_loop c L vals 0 =
        map (\<lambda>k. Update (chunk_at c vals k)
                   (range_address L (k * c + 2) (k * c + 2 + length (chunk_at c vals k) - 1)))
            [0..<n_chunks c (length vals)]"
    using update_loop_from [OF c, of L vals 0] by simp
  show "concat (map (chunk_at c vals) [0..<n_chunks c (length vals)]) = vals"
    using concat_chunks_from [OF c, of vals 0] by simp
  fix k assume "k < n_chunks c (length vals)"
  then have "k * c < length vals" using below_n_chunks [OF c] by simp
  then show "chunk_at c vals k \<noteq> []" using c by (simp add: chunk_at_def)
  show "length (chunk_at c vals k) \<le> c" by (simp add: chunk_at_def)
next
  assume n: "length vals = 5000"
  have rows: "str_nat (0 * 2000 + 2) = str ''2''" "str_nat (0 * 2000 + 2 + 2000 - 1) = str ''2001''"
    "str_nat (1 * 2000 + 2) = str ''2002''" "str_nat (1 * 2000 + 2 + 2000 - 1) = str ''4001''"
    "str_nat (2 * 2000 + 2) = str ''4002''" "str_nat (2 * 2000 + 2 + 1000 - 1) = str ''5001''"
    using str_nat_rows by simp_all
  have three: "n_chunks 2000 5000 = 3" "[0..<3] = [0, 1, 2]"
    by (simp_all add: n_chunks_def upt_rec)
  have "update_loop 2000 L vals 0 =
        map (\<lambda>k. Update (chunk_at 2000 vals k)
                   (range_address L (k * 2000 + 2) (k * 2000 + 2 + length (chunk_at 2000 vals k) - 1)))
            [0..<n_chunks 2000 (length vals)]"
    using update_loop_from [of 2000 L vals 0] by simp
  then show "update_loop UPLOAD_CHUNK L vals 0 =
        [Update (take 2000 vals) (L @ str ''2:'' @ L @ str ''2001''),
         Update (take 2000 (drop 2000 vals)) (L @ str ''2002:'' @ L @ str ''4001''),
         Update (take 2000 (drop 4000 vals)) (L @ str ''4002:'' @ L @ str ''5001'')]"
    using n rows by (simp add: three UPLOAD_CHUNK_def chunk_at_def range_address_def)
  have "concat (map (chunk_at 2000 vals) [0..<n_chunks 2000 (length vals)]) = vals"
    using concat_chunks_from [of 2000 vals 0] by simp
  then show "take 2000 vals @ take 2000 (drop 2000 vals) @ take 2000 (drop 4000 vals) = vals"
    using n by (simp add: three chunk_at_def)
qed

theorem update_loop_chunks_witness:
  "(0::nat) < 2
   \<and> update_loop 2 (str ''C'') [[str ''a''], [str ''b''], [str ''c'']] 0 =
       [Update [[str ''a''], [str ''b'']] (str ''C2:C3''), Update [[str ''c'']] (str ''C4:C4'')]
   \<and> length (replicate 5000 [str ''v'']) = 5000
   \<and> update_loop UPLOAD_CHUNK (str ''N'') (replicate 5000 [str ''v'']) 0 =
       [Update (replicate 2000 [str ''v'']) (str ''N2:N2001''),
        Update (replicate 2000 [str ''v'']) (str ''N2002:N4001''),
        Update (replicate 1000 [str ''v'']) (str ''N4002:N5001'')]"
proof -
  let ?vals = "[[str ''a''], [str ''b''], [str ''c'']]"
  have pos: "(0::nat) < 2" by simp
  have "update_loop 2 (str ''C'') ?vals 0 =
        map (\<lambda>k. Update (chunk_at 2 ?vals k)
                   (range_address (str ''C'') (k * 2 + 2) (k * 2 + 2 + length (chunk_at 2 ?vals k) - 1)))
            [0..<n_chunks 2 (length ?vals)]"
    using update_loop_chunks [of 2 "str ''C''" ?vals] pos by blast
  also have "\<dots> = [Update [[str ''a''], [str ''b'']] (str ''C2:C3''), Update [[str ''c'']] (str ''C4:C4'')]"
  proof -
    have two: "n_chunks 2 (length ?vals) = 2" "[0..<2] = [0, 1]"
      by (simp_all add: n_chunks_def upt_rec)
    have rows: "str_nat (0 * 2 + 2) = str ''2''" "str_nat (0 * 2 + 2 + 2 - 1) = str ''3''"
      "str_nat (1 * 2 + 2) = str ''4''" "str_nat (1 * 2 + 2 + 1 - 1) = str ''4''"
      using str_nat_rows by simp_all
    show ?thesis unfolding two using rows
      by (simp add: chunk_at_def range_address_def str_def)
  qed
  finally have small: "update_loop 2 (str ''C'') ?vals 0 =
      [Update [[str ''a''], [str ''b'']] (str ''C2:C3''), Update [[str ''c'']] (str ''C4:C4'')]" .
  have len: "length (replicate 5000 [str ''v'']) = 5000" by simp
  have "update_loop UPLOAD_CHUNK (str ''N'') (replicate 5000 [str ''v'']) 0 =
        [Update (take 2000 (replicate 5000 [str ''v''])) (str ''N'' @ str ''2:'' @ str ''N'' @ str ''2001''),
         Update (take 2000 (drop 2000 (replicate 5000 [str ''v'']))) (str ''N'' @ str ''2002:'' @ str ''N'' @ str ''4001''),
         Update (take 2000 (drop 4000 (replicate 5000 [str ''v'']))) (str ''N'' @ str ''4002:'' @ str ''N'' @ str ''5001'')]"
    using update_loop_chunks [of 2 "str ''N''" "replicate 5000 [str ''v'']"] len by blast
  then have big: "update_loop UPLOAD_CHUNK (str ''N'') (replicate 5000 [str ''v'']) 0 =
       [Update (replicate 2000 [str ''v'']) (str ''N2:N2001''),
        Update (replicate 2000 [str ''v'']) (str ''N2002:N4001''),
        Update (replicate 1000 [str ''v'']) (str ''N4002:N5001'')]"
    by simp
  from pos small len big show ?thesis by blast
qed


section \<open>Properties of the mapping builder\<close>

lemma q4_loop_step:
  "q4_loop k (r # rows) m =
     q4_loop k rows (if q4_kept k r then m(strip (r ! k) \<mapsto> strip (r ! Q4_STATUS_COL_N)) else m)"
  by (auto simp: q4_kept_def Let_def)

lemma q4_loop_append: "q4_loop k (xs @ ys) m = q4_loop k ys (q4_loop k xs m)"
  by (induction xs arbitrary: m) (simp_all only: append_Nil append_Cons q4_loop.simps(1) q4_loop_step)

lemma q4_loop_other:
  "\<forall>r\<in>set ys. q4_kept k r \<longrightarrow> strip (r ! k) \<noteq> key \<Longrightarrow> q4_loop k ys m key = m key"
proof (induction ys arbitrary: m)
  case Nil
  show ?case by simp
next
  case (Cons r ys)
  from Cons.prems have a: "q4_kept k r \<longrightarrow> strip (r ! k) \<noteq> key"
    and b: "\<forall>r\<in>set ys. q4_kept k r \<longrightarrow> strip (r ! k) \<noteq> key" by simp_all
  show ?case using a by (simp only: q4_loop_step Cons.IH [OF b]) auto
qed

lemma q4_loop_split:
  "q4_loop k (xs @ r # ys) m = q4_loop k ys (q4_loop k [r] (q4_loop k xs m))"
  by (simp only: q4_loop_append q4_loop_step q4_loop.simps(1))

lemma dom_q4_loop:
  "dom (q4_loop k body m) = dom m \<union> {strip (r ! k) | r. r \<in> set body \<and> q4_kept k r}"
proof (induction body arbitrary: m)
  case Nil
  show ?case by simp
next
  case (Cons r body)
  show ?case by (simp only: q4_loop_step Cons.IH) auto
qed

lemma q4_loop_filter: "q4_loop k (filter (q4_kept k) body) m = q4_loop k body m"
proof (induction body arbitrary: m)
  case Nil
  show ?case by simp
next
  case (Cons r body)
  show ?case
  proof (cases "q4_kept k r")
    case True
    then show ?thesis by (simp only: filter.simps if_True q4_loop_step Cons.IH)
  next
    case False
    then show ?thesis by (simp only: filter.simps if_False q4_loop_step Cons.IH)
  qed
qed

lemma q4_loop_last_wins:
  assumes i: "i < length body" and kept: "q4_kept k (body ! i)"
    and later: "\<forall>j. i < j \<and> j < length body \<and> q4_kept k (body ! j)
                  \<longrightarrow> strip (body ! j ! k) \<noteq> strip (body ! i ! k)"
  shows "q4_loop k body m (strip (body ! i ! k)) = Some (strip (body ! i ! Q4_STATUS_COL_N))"
proof -
  let ?post = "drop (Suc i) body"
  have body: "body = take i body @ body ! i # ?post"
    using i by (simp add: id_take_nth_drop)
  have post: "\<forall>r\<in>set ?post. q4_kept k r \<longrightarrow> strip (r ! k) \<noteq> strip (body ! i ! k)"
  proof (intro ballI impI)
    fix r assume r: "r \<in> set ?post" and kr: "q4_kept k r"
    from r obtain d where d: "d < length ?post" "r = ?post ! d" by (auto simp: in_set_conv_nth)
    then have "r = body ! (Suc i + d)" "Suc i + d < length body" using i by auto
    with later kr show "strip (r ! k) \<noteq> strip (body ! i ! k)" by auto
  qed
  have "q4_loop k body m = q4_loop k ?post (q4_loop k [body ! i] (q4_loop k (take i body) m))"
    by (subst body) (rule q4_loop_split)
  then show ?thesis
    using q4_loop_other [OF post] kept by (simp only: q4_loop_step q4_loop.simps(1)) simp
qed

text \<open>
  C3.  When the header has the key label at index \<open>k\<close>, the builder returns a mapping and
  raises nothing.  A row with at most \<open>k\<close> or at most 13 cells, and a row whose trimmed key
  is empty, is skipped: the mapping is the one built from the other rows alone.  Its keys
  are the trimmed keys of the rows that are not skipped, and the trimmed key of such a row
  is mapped to the trimmed status of the last such row that has this key.
\<close>

theorem build_q4_mapping_rows:
  assumes "index_of Q4_LINK_HEADER header = Some k"
  shows "\<exists>m. build_q4_mapping (header # body) = Inr m
    \<and> build_q4_mapping (header # filter (q4_kept k) body) = Inr m
    \<and> dom m = {strip (r ! k) | r. r \<in> set body \<and> q4_kept k r}
    \<and> (\<forall>i<length body.
          q4_kept k (body ! i)
          \<and> (\<forall>j. i < j \<and> j < length body \<and> q4_kept k (body ! j)
                 \<longrightarrow> strip (body ! j ! k) \<noteq> strip (body ! i ! k))
          \<longrightarrow> m (strip (body ! i ! k)) = Some (strip (body ! i ! Q4_STATUS_COL_N)))"
proof -
  let ?m = "q4_loop k body Map.empty"
  have "build_q4_mapping (header # body) = Inr ?m"
    using assms by (simp add: build_q4_mapping_def)
  moreover have "build_q4_mapping (header # filter (q4_kept k) body) = Inr ?m"
    using assms by (simp add: build_q4_mapping_def q4_loop_filter)
  moreover have "dom ?m = {strip (r ! k) | r. r \<in> set body \<and> q4_kept k r}"
    by (simp add: dom_q4_loop)
  moreover have "\<forall>i<length body.
          q4_kept k (body ! i)
          \<and> (\<forall>j. i < j \<and> j < length body \<and> q4_kept k (body ! j)
                 \<longrightarrow> strip (body ! j ! k) \<noteq> strip (body ! i ! k))
          \<longrightarrow> ?m (strip (body ! i ! k)) = Some (strip (body ! i ! Q4_STATUS_COL_N))"
    using q4_loop_last_wins by blast
  ultimately show ?thesis by blast
qed

theorem build_q4_mapping_rows_witness:
  "index_of Q4_LINK_HEADER
     (map str [''Id'', ''Github Links'', ''c'', ''d'', ''e'', ''f'', ''g'', ''h'', ''i'', ''j'',
               ''k'', ''l'', ''m'', ''Status'']) = Some 1
   \<and> (\<exists>m. build_q4_mapping
        [map str [''Id'', ''Github Links'', ''c'', ''d'', ''e'', ''f'', ''g'', ''h'', ''i'', ''j'',
                  ''k'', ''l'', ''m'', ''Status''],
         map str [''1'', '' repoA '', ''c'', ''d'', ''e'', ''f'', ''g'', ''h'', ''i'', ''j'',
                  ''k'', ''l'', ''m'', ''valid''],
         str ''2'' # ([0x00A0] @ str ''repoA'' @ [0x2003])
           # map str [''c'', ''d'', ''e'', ''f'', ''g'', ''h'', ''i'', ''j'', ''k'', ''l'', ''m'']
           @ [[0x0085] @ str ''revoked '']]
        = Inr m
      \<and> m (str ''repoA'') = Some (str ''revoked''))"
proof -
  let ?header = "map str [''Id'', ''Github Links'', ''c'', ''d'', ''e'', ''f'', ''g'', ''h'', ''i'',
                          ''j'', ''k'', ''l'', ''m'', ''Status'']"
  let ?body = "[map str [''1'', '' repoA '', ''c'', ''d'', ''e'', ''f'', ''g'', ''h'', ''i'', ''j'',
                  ''k'', ''l'', ''m'', ''valid''],
         str ''2'' # ([0x00A0] @ str ''repoA'' @ [0x2003])
           # map str [''c'', ''d'', ''e'', ''f'', ''g'', ''h'', ''i'', ''j'', ''k'', ''l'', ''m'']
           @ [[0x0085] @ str ''revoked '']]"
  have idx: "index_of Q4_LINK_HEADER ?header = Some 1"
    by (simp add: Q4_LINK_HEADER_def)
  have kept: "q4_kept 1 (?body ! 1)"
    by (simp add: q4_kept_def Q4_STATUS_COL_N_def strip_def is_space_def str_def)
  have key: "strip (?body ! 1 ! 1) = str ''repoA''"
    and status: "strip (?body ! 1 ! Q4_STATUS_COL_N) = str ''revoked''"
    by (simp_all add: Q4_STATUS_COL_N_def strip_def is_space_def str_def)
  from build_q4_mapping_rows [OF idx, of ?body] obtain m
    where m: "build_q4_mapping (?header # ?body) = Inr m"
      and last: "\<forall>i<length ?body.
          q4_kept 1 (?body ! i)
          \<and> (\<forall>j. i < j \<and> j < length ?body \<and> q4_kept 1 (?body ! j)
                 \<longrightarrow> strip (?body ! j ! 1) \<noteq> strip (?body ! i ! 1))
          \<longrightarrow> m (strip (?body ! i ! 1)) = Some (strip (?body ! i ! Q4_STATUS_COL_N))"
    by blast
  have "(1::nat) < length ?body" by simp
  moreover have "\<forall>j. (1::nat) < j \<and> j < length ?body \<and> q4_kept 1 (?body ! j)
                 \<longrightarrow> strip (?body ! j ! 1) \<noteq> strip (?body ! 1 ! 1)" by simp
  ultimately have "m (strip (?body ! 1 ! 1)) = Some (strip (?body ! 1 ! Q4_STATUS_COL_N))"
    using last kept by blast
  then have "m (str ''repoA'') = Some (str ''revoked'')" by (simp only: key status)
  with idx m show ?thesis by blast
qed


section \<open>Properties of the main flow and of the schema reconciler\<close>

lemma index_of_None: "index_of x xs = None \<longleftrightarrow> x \<notin> set xs"
  by (induction xs) auto

lemma index_of_Some: "index_of x xs = Some j \<Longrightarrow> j < length xs \<and> xs ! j = x"
  by (induction xs arbitrary: j) (auto split: if_splits)

lemma filter_eq_upt: "filter (\<lambda>i. i = j) [0..<n] = (if j < n then [j] else [])"
  by (induction n) auto

lemma positions_distinct:
  assumes "distinct cols" "j < length cols" "cols ! j = name"
  shows "positions name cols = [j]"
proof -
  have "filter (\<lambda>i. cols ! i = name) [0..<length cols] = filter (\<lambda>i. i = j) [0..<length cols]"
    using assms by (intro filter_cong) (auto simp: nth_eq_iff_index_eq)
  then show ?thesis using assms(2) by (simp add: positions_def filter_eq_upt)
qed

lemma positions_snoc:
  assumes "name \<notin> set cols"
  shows "positions name (cols @ [name]) = [length cols]"
proof -
  have "filter (\<lambda>i. (cols @ [name]) ! i = name) [0..<length cols] = []"
    using assms by (auto simp: filter_empty_conv nth_append)
  then show ?thesis by (simp add: positions_def)
qed

text \<open>
  C8.  When the key label is not in the header of the source table, the run ends in a
  \<open>sys.exit\<close>, and no call has been issued on a worksheet.
\<close>

theorem match_main_missing_column:
  assumes "Q4_LINK_HEADER \<notin> set header"
  shows "match_main key_exists (header # body) q2_rows =
    Some (Inl (SystemExit (if key_exists
                           then str ''[ERROR] Column 'Github Links' not found in Q4 sheet.''
                           else str ''[FATAL] Service-account key file not found.'')), [])"
  using assms by (simp add: match_main_def build_q4_mapping_def index_of_None [THEN iffD2])

theorem match_main_missing_column_witness:
  "Q4_LINK_HEADER \<notin> set [str ''Id'', str ''Link'']
   \<and> match_main True [[str ''Id'', str ''Link''], [str ''1'', str ''repoA'']] [[str ''Link''], [str ''repoA'']] =
       Some (Inl (SystemExit (str ''[ERROR] Column 'Github Links' not found in Q4 sheet.'')), [])"
proof -
  have h: "Q4_LINK_HEADER \<notin> set [str ''Id'', str ''Link'']" by (simp add: Q4_LINK_HEADER_def)
  from match_main_missing_column [OF h, of True] h show ?thesis by simp
qed

text \<open>
  C4.  When the target label is in the header (of pairwise distinct labels), the reconciler
  returns its index, leaves the table as it is and issues no call.  When it is not, the
  reconciler issues one column append and one header-cell write and returns the index of
  the new last column; called again on the table it returned, it issues no call and
  returns the same index and the same table.
\<close>

theorem ensure_status_column_twice:
  "(distinct (columns df) \<and> Q2_STATUS_HEADER \<in> set (columns df) \<longrightarrow>
      (\<exists>j. index_of Q2_STATUS_HEADER (columns df) = Some j
           \<and> ensure_status_column df = (df, Int_loc j, [])))
   \<and> (Q2_STATUS_HEADER \<notin> set (columns df) \<longrightarrow>
      (\<exists>df'. ensure_status_column df =
                (df', Int_loc (length (columns df)),
                 [Add_cols 1, Update_cell 1 (length (columns df) + 1) Q2_STATUS_HEADER])
            \<and> columns df' = columns df @ [Q2_STATUS_HEADER]
            \<and> ensure_status_column df' = (df', Int_loc (length (columns df)), [])))"
proof (intro conjI impI)
  assume a: "distinct (columns df) \<and> Q2_STATUS_HEADER \<in> set (columns df)"
  then obtain j where j: "index_of Q2_STATUS_HEADER (columns df) = Some j"
    using index_of_None [of Q2_STATUS_HEADER "columns df"] by (cases "index_of Q2_STATUS_HEADER (columns df)") auto
  from index_of_Some [OF j] a have "positions Q2_STATUS_HEADER (columns df) = [j]"
    by (intro positions_distinct) auto
  with a j show "\<exists>j. index_of Q2_STATUS_HEADER (columns df) = Some j
           \<and> ensure_status_column df = (df, Int_loc j, [])"
    by (simp add: ensure_status_column_def get_loc_def)
next
  assume a: "Q2_STATUS_HEADER \<notin> set (columns df)"
  let ?df' = "df\<lparr>columns := columns df @ [Q2_STATUS_HEADER],
                  cells := map (\<lambda>r. r @ [Some []]) (cells df)\<rparr>"
  have 1: "ensure_status_column df =
                (?df', Int_loc (length (columns df)),
                 [Add_cols 1, Update_cell 1 (length (columns df) + 1) Q2_STATUS_HEADER])"
    using a by (simp add: ensure_status_column_def Let_def)
  have 2: "ensure_status_column ?df' = (?df', Int_loc (length (columns df)), [])"
    using positions_snoc [OF a] by (simp add: ensure_status_column_def get_loc_def)
  from 1 2 show "\<exists>df'. ensure_status_column df =
                (df', Int_loc (length (columns df)),
                 [Add_cols 1, Update_cell 1 (length (columns df) + 1) Q2_STATUS_HEADER])
            \<and> columns df' = columns df @ [Q2_STATUS_HEADER]
            \<and> ensure_status_column df' = (df', Int_loc (length (columns df)), [])"
    by (intro exI [of _ ?df']) simp
qed

theorem ensure_status_column_twice_witness:
  "distinct [str ''Link'', str ''Validity status'']
   \<and> Q2_STATUS_HEADER \<in> set [str ''Link'', str ''Validity status'']
   \<and> ensure_status_column \<lparr>columns = [str ''Link'', str ''Validity status''], cells = [[Some (str ''a''), Some (str ''b'')]]\<rparr>
       = (\<lparr>columns = [str ''Link'', str ''Validity status''], cells = [[Some (str ''a''), Some (str ''b'')]]\<rparr>, Int_loc 1, [])
   \<and> Q2_STATUS_HEADER \<notin> set [str ''Link'']
   \<and> (\<exists>df'. ensure_status_column \<lparr>columns = [str ''Link''], cells = [[Some (str ''a'')]]\<rparr>
               = (df', Int_loc 1, [Add_cols 1, Update_cell 1 2 (str ''Validity status'')])
            \<and> columns df' = [str ''Link'', str ''Validity status'']
            \<and> ensure_status_column df' = (df', Int_loc 1, []))"
  using ensure_status_column_twice
          [of "\<lparr>columns = [str ''Link'', str ''Validity status''], cells = [[Some (str ''a''), Some (str ''b'')]]\<rparr>"]
        ensure_status_column_twice [of "\<lparr>columns = [str ''Link''], cells = [[Some (str ''a'')]]\<rparr>"]
  by (simp add: Q2_STATUS_HEADER_def numeral_2_eq_2)


section \<open>Properties of the merge engine\<close>

lemma columns_df_at_set: "columns (df_at_set df idx name v) = columns df"
  by (simp add: df_at_set_def)

lemma cells_df_at_set:
  "cells (df_at_set df idx name v) =
     (cells df)[idx := fold (\<lambda>j r. r[j := v]) (positions name (columns df)) (cells df ! idx)]"
  by (simp add: df_at_set_def)

lemma merge_loop_closed:
  assumes "\<forall>i. idx \<le> i \<and> i < length (cells df)
             \<longrightarrow> (\<exists>link. row_link (columns df) (cells df ! i) = Inr link)"
  shows "merge_loop m df idx k =
     Inr (df\<lparr>cells := take idx (cells df) @ map (merged_row m (columns df)) (drop idx (cells df))\<rparr>,
          k + length (filter (row_matches m (columns df)) (drop idx (cells df))))"
  using assms
proof (induction m df idx k rule: merge_loop.induct)
  case (1 m df idx k)
  show ?case
  proof (cases "idx < length (cells df)")
    case False
    then show ?thesis by (subst merge_loop.simps) simp
  next
    case True
    with "1.prems" obtain link where link: "row_link (columns df) (cells df ! idx) = Inr link"
      by auto
    have dr: "drop idx (cells df) = cells df ! idx # drop (Suc idx) (cells df)"
      using True by (simp add: Cons_nth_drop_Suc)
    show ?thesis
    proof (cases "m link")
      case None
      have later: "\<forall>i. idx + 1 \<le> i \<and> i < length (cells df)
             \<longrightarrow> (\<exists>link. row_link (columns df) (cells df ! i) = Inr link)"
        using "1.prems" by auto
      have mr: "merged_row m (columns df) (cells df ! idx) = cells df ! idx"
        and rm: "\<not> row_matches m (columns df) (cells df ! idx)"
        using link None by (simp_all add: merged_row_def row_matches_def)
      have tk: "take (Suc idx) (cells df) = take idx (cells df) @ [cells df ! idx]"
        using True by (simp add: take_Suc_conv_app_nth)
      have "merge_loop m df idx k = merge_loop m df (idx + 1) k"
        using True link None by (subst merge_loop.simps) simp
      also note "1.IH"(1) [OF True link None later]
      finally show ?thesis by (simp add: dr mr rm tk)
    next
      case (Some v)
      let ?new = "fold (\<lambda>j r. r[j := Some v]) (positions Q2_STATUS_HEADER (columns df)) (cells df ! idx)"
      let ?df = "df_at_set df idx Q2_STATUS_HEADER (Some v)"
      have cols: "columns ?df = columns df" by (rule columns_df_at_set)
      have cs: "cells ?df = (cells df)[idx := ?new]" by (rule cells_df_at_set)
      have later: "\<forall>i. idx + 1 \<le> i \<and> i < length (cells ?df)
             \<longrightarrow> (\<exists>link. row_link (columns ?df) (cells ?df ! i) = Inr link)"
        using "1.prems" by (auto simp: cols cs)
      have mr: "merged_row m (columns df) (cells df ! idx) = ?new"
        and rm: "row_matches m (columns df) (cells df ! idx)"
        using link Some by (simp_all add: merged_row_def row_matches_def)
      have tk: "take (Suc idx) ((cells df)[idx := ?new]) = take idx (cells df) @ [?new]"
        using True by (simp add: take_Suc_conv_app_nth)
      have upd: "?df\<lparr>cells := X\<rparr> = df\<lparr>cells := X\<rparr>" for X
        by (simp add: df_at_set_def)
      have "merge_loop m df idx k = merge_loop m ?df (idx + 1) (k + 1)"
        using True link Some by (subst merge_loop.simps) simp
      also note "1.IH"(2) [OF True link Some later]
      finally show ?thesis by (simp add: dr mr rm tk cols cs upd)
    qed
  qed
qed

lemma positions_nth: "j \<in> set (positions name cols) \<Longrightarrow> j < length cols \<and> cols ! j = name"
  by (auto simp: positions_def)

lemma row_link_update:
  assumes "positions Q2_STATUS_HEADER cols = [t]"
  shows "row_link cols (row[t := x]) = row_link cols row"
proof -
  have t: "cols ! t = Q2_STATUS_HEADER"
    using positions_nth [of t Q2_STATUS_HEADER cols] assms by simp
  have other: "j \<noteq> t" if "positions Q2_LINK_HEADER cols = [j]" for j
  proof
    assume "j = t"
    moreover have "cols ! j = Q2_LINK_HEADER"
      using positions_nth [of j Q2_LINK_HEADER cols] that by simp
    ultimately show False using t by (simp add: Q2_LINK_HEADER_def Q2_STATUS_HEADER_def)
  qed
  show ?thesis
  proof (cases "positions Q2_LINK_HEADER cols")
    case Nil
    then show ?thesis by (simp add: row_link_def)
  next
    case (Cons j js)
    show ?thesis
    proof (cases js)
      case Nil
      with Cons other [of j] show ?thesis by (simp add: row_link_def)
    next
      case (Cons a as)
      with \<open>positions Q2_LINK_HEADER cols = j # js\<close> show ?thesis by (simp add: row_link_def)
    qed
  qed
qed

lemma merged_row_unique:
  assumes "positions Q2_STATUS_HEADER cols = [t]" and "row_link cols row = Inr link"
  shows "merged_row m cols row = (case m link of None \<Rightarrow> row | Some v \<Rightarrow> row[t := Some v])"
  using assms by (simp add: merged_row_def split: option.split)

lemma row_link_merged:
  assumes "positions Q2_STATUS_HEADER cols = [t]"
  shows "row_link cols (merged_row m cols row) = row_link cols row"
  using row_link_update [OF assms] assms
  by (simp add: merged_row_def split: sum.split option.split)

lemma merged_row_idem:
  assumes "positions Q2_STATUS_HEADER cols = [t]"
  shows "merged_row m cols (merged_row m cols row) = merged_row m cols row"
proof (cases "row_link cols row")
  case (Inl e)
  then show ?thesis by (simp add: merged_row_def)
next
  case (Inr link)
  have "row_link cols (merged_row m cols row) = Inr link"
    using row_link_merged [OF assms] Inr by simp
  from merged_row_unique [OF assms this] merged_row_unique [OF assms Inr]
  show ?thesis by (simp split: option.split)
qed

lemma row_matches_merged:
  assumes "positions Q2_STATUS_HEADER cols = [t]"
  shows "row_matches m cols (merged_row m cols row) = row_matches m cols row"
  by (simp add: row_matches_def row_link_merged [OF assms])

lemma positions_absent: "name \<notin> set cols \<Longrightarrow> positions name cols = []"
  by (auto simp: positions_def filter_empty_conv)

text \<open>
  The merge raises nothing on a table of pairwise distinct labels whose rows have one
  str for each label.
\<close>

lemma row_link_total:
  assumes "distinct cols" "length row = length cols" "None \<notin> set row"
  shows "\<exists>link. row_link cols row = Inr link"
proof (cases "Q2_LINK_HEADER \<in> set cols")
  case False
  then show ?thesis by (simp add: row_link_def positions_absent)
next
  case True
  then obtain j where j: "j < length cols" "cols ! j = Q2_LINK_HEADER"
    by (auto simp: in_set_conv_nth)
  from positions_distinct [OF assms(1) j] have p: "positions Q2_LINK_HEADER cols = [j]" .
  from j assms(2,3) obtain s where "row ! j = Some s"
    by (cases "row ! j") (auto simp: in_set_conv_nth)
  with p j assms(2) show ?thesis by (simp add: row_link_def)
qed

text \<open>
  The merge on a table that has a key in every row: the target label occurs once, in
  column \<open>t\<close>, and no row makes the merge raise.  Then the merge returns; a row whose
  trimmed key is in the mapping has the mapped value in column \<open>t\<close> and is otherwise as
  before, any other row is as before; the count is the number of rows whose trimmed key is
  in the mapping; and a second merge with the same mapping returns the merged table and
  the same count.
\<close>

theorem merge_loop_merges:
  assumes "positions Q2_STATUS_HEADER (columns df) = [t]"
    and "\<forall>r\<in>set (cells df). \<exists>link. row_link (columns df) r = Inr link"
  shows "\<exists>df' matches.
      merge_loop m df 0 0 = Inr (df', matches)
    \<and> columns df' = columns df \<and> length (cells df') = length (cells df)
    \<and> (\<forall>i<length (cells df). \<exists>link.
          row_link (columns df) (cells df ! i) = Inr link
        \<and> cells df' ! i =
            (case m link of None \<Rightarrow> cells df ! i | Some v \<Rightarrow> (cells df ! i)[t := Some v])
        \<and> (t < length (cells df ! i) \<longrightarrow>
             cells df' ! i ! t = (case m link of None \<Rightarrow> cells df ! i ! t | Some v \<Rightarrow> Some v)))
    \<and> matches = length (filter (row_matches m (columns df)) (cells df))
    \<and> merge_loop m df' 0 0 = Inr (df', matches)"
proof -
  let ?cols = "columns df"
  let ?df' = "df\<lparr>cells := map (merged_row m ?cols) (cells df)\<rparr>"
  let ?k = "length (filter (row_matches m ?cols) (cells df))"
  have links: "\<forall>i. 0 \<le> i \<and> i < length (cells df)
                 \<longrightarrow> (\<exists>link. row_link ?cols (cells df ! i) = Inr link)"
    using assms(2) by auto
  have first: "merge_loop m df 0 0 = Inr (?df', ?k)"
    using merge_loop_closed [OF links, of m 0] by simp
  have links': "\<forall>i. 0 \<le> i \<and> i < length (cells ?df')
                 \<longrightarrow> (\<exists>link. row_link (columns ?df') (cells ?df' ! i) = Inr link)"
    using assms(2) by (auto simp: row_link_merged [OF assms(1)])
  have again: "merged_row m ?cols \<circ> merged_row m ?cols = merged_row m ?cols"
    by (rule ext) (simp add: merged_row_idem [OF assms(1)])
  have count: "row_matches m ?cols \<circ> merged_row m ?cols = row_matches m ?cols"
    by (rule ext) (simp add: row_matches_merged [OF assms(1)])
  have second: "merge_loop m ?df' 0 0 = Inr (?df', ?k)"
    using merge_loop_closed [OF links', of m 0] by (simp add: again count)
  have rows: "\<forall>i<length (cells df). \<exists>link.
          row_link ?cols (cells df ! i) = Inr link
        \<and> cells ?df' ! i =
            (case m link of None \<Rightarrow> cells df ! i | Some v \<Rightarrow> (cells df ! i)[t := Some v])
        \<and> (t < length (cells df ! i) \<longrightarrow>
             cells ?df' ! i ! t = (case m link of None \<Rightarrow> cells df ! i ! t | Some v \<Rightarrow> Some v))"
  proof (intro allI impI)
    fix i assume i: "i < length (cells df)"
    with assms(2) obtain link where link: "row_link ?cols (cells df ! i) = Inr link"
      by (meson nth_mem)
    from merged_row_unique [OF assms(1) link, of m] i link
    show "\<exists>link. row_link ?cols (cells df ! i) = Inr link
        \<and> cells ?df' ! i =
            (case m link of None \<Rightarrow> cells df ! i | Some v \<Rightarrow> (cells df ! i)[t := Some v])
        \<and> (t < length (cells df ! i) \<longrightarrow>
             cells ?df' ! i ! t = (case m link of None \<Rightarrow> cells df ! i ! t | Some v \<Rightarrow> Some v))"
      by (auto split: option.split)
  qed
  from first second rows show ?thesis
    by (intro exI [of _ ?df'] exI [of _ ?k]) simp
qed

theorem merge_loop_merges_witness:
  "positions Q2_STATUS_HEADER [str ''Link'', str ''Validity status''] = [1]
   \<and> row_link [str ''Link'', str ''Validity status''] [Some (str '' repoA''), Some (str '''')] = Inr (str ''repoA'')
   \<and> row_link [str ''Link'', str ''Validity status''] [Some (str ''repoC''), Some (str '''')] = Inr (str ''repoC'')
   \<and> row_link [str ''Link'', str ''Validity status''] [Some (str ''repoB''), Some (str '''')] = Inr (str ''repoB'')
   \<and> (\<exists>df' matches.
         merge_loop [str ''repoA'' \<mapsto> str ''valid'', str ''repoB'' \<mapsto> str ''revoked'']
           \<lparr>columns = [str ''Link'', str ''Validity status''],
            cells = [[Some (str '' repoA''), Some (str '''')], [Some (str ''repoC''), Some (str '''')],
                     [Some (str ''repoB''), Some (str '''')]]\<rparr> 0 0 = Inr (df', matches)
       \<and> matches = 2
       \<and> cells df' ! 0 = [Some (str '' repoA''), Some (str ''valid'')]
       \<and> cells df' ! 1 = [Some (str ''repoC''), Some (str '''')]
       \<and> merge_loop [str ''repoA'' \<mapsto> str ''valid'', str ''repoB'' \<mapsto> str ''revoked''] df' 0 0
             = Inr (df', matches))"
proof -
  let ?cols = "[str ''Link'', str ''Validity status'']"
  let ?r0 = "[Some (str '' repoA''), Some (str '''')]"
  let ?r1 = "[Some (str ''repoC''), Some (str '''')]"
  let ?r2 = "[Some (str ''repoB''), Some (str '''')]"
  let ?df = "\<lparr>columns = ?cols, cells = [?r0, ?r1, ?r2]\<rparr>"
  let ?m = "[str ''repoA'' \<mapsto> str ''valid'', str ''repoB'' \<mapsto> str ''revoked'']"
  have p: "positions Q2_STATUS_HEADER ?cols = [1]"
    by (simp add: positions_def Q2_STATUS_HEADER_def)
  have l0: "row_link ?cols ?r0 = Inr (str ''repoA'')" and l1: "row_link ?cols ?r1 = Inr (str ''repoC'')"
    and l2: "row_link ?cols ?r2 = Inr (str ''repoB'')"
    by (simp_all add: row_link_def positions_def Q2_LINK_HEADER_def strip_def is_space_def str_def)
  have h: "\<forall>r\<in>set [?r0, ?r1, ?r2]. \<exists>link. row_link ?cols r = Inr link"
    using l0 l1 l2 by simp
  have p': "positions Q2_STATUS_HEADER (columns ?df) = [1]" using p by simp
  have h': "\<forall>r\<in>set (cells ?df). \<exists>link. row_link (columns ?df) r = Inr link" using h by simp
  from merge_loop_merges [OF p' h', of ?m] obtain df' matches
    where run: "merge_loop ?m ?df 0 0 = Inr (df', matches)"
      and rows: "\<forall>i<length (cells ?df). \<exists>link.
          row_link (columns ?df) (cells ?df ! i) = Inr link
        \<and> cells df' ! i =
            (case ?m link of None \<Rightarrow> cells ?df ! i | Some v \<Rightarrow> (cells ?df ! i)[1 := Some v])
        \<and> (1 < length (cells ?df ! i) \<longrightarrow>
             cells df' ! i ! 1 = (case ?m link of None \<Rightarrow> cells ?df ! i ! 1 | Some v \<Rightarrow> Some v))"
      and count: "matches = length (filter (row_matches ?m (columns ?df)) (cells ?df))"
      and again: "merge_loop ?m df' 0 0 = Inr (df', matches)"
    by blast
  have k: "matches = 2"
    unfolding count using l0 l1 l2 by (simp add: row_matches_def)
  have c0: "cells df' ! 0 = [Some (str '' repoA''), Some (str ''valid'')]"
    using rows [THEN spec, of 0] l0 by simp
  have c1: "cells df' ! 1 = [Some (str ''repoC''), Some (str '''')]"
    using rows [THEN spec, of 1] l1 by simp
  from p l0 l1 l2 run k c0 c1 again show ?thesis by blast
qed




section \<open>Properties of upload.py\<close>

lemma append_loop_from:
  assumes c: "0 < c"
  shows "append_loop c rs (j * c) =
    map (\<lambda>k. Append_rows (chunk_at c rs k)) [j..<n_chunks c (length rs)]"
proof (induction "n_chunks c (length rs) - j" arbitrary: j)
  case 0
  then have "\<not> j < n_chunks c (length rs)" by simp
  then have "\<not> j * c < length rs" using below_n_chunks [OF c] by simp
  with 0 show ?case by (subst append_loop.simps) simp
next
  case (Suc d)
  then have j: "j < n_chunks c (length rs)" by simp
  then have lt: "j * c < length rs" using below_n_chunks [OF c] by simp
  from Suc have "d = n_chunks c (length rs) - Suc j" by simp
  from Suc.hyps(1) [OF this]
  have IH: "append_loop c rs (j * c + c) =
    map (\<lambda>k. Append_rows (chunk_at c rs k)) [Suc j..<n_chunks c (length rs)]"
    by (simp add: add.commute)
  show ?case
    using c lt j IH
    by (subst append_loop.simps) (simp add: upt_conv_Cons chunk_at_def)
qed

lemma grid_run_appends:
  "grid_run (map Append_rows chunks) g = Some (g @ concat chunks)"
  by (induction chunks arbitrary: g) simp_all

lemma parse_line_fields:
  "parse_line json_loads raw = Inr (Some rec) \<Longrightarrow> map fst rec = FIELD_NAMES"
  by (auto simp: parse_line_def Let_def bind_err_def FIELD_NAMES_def split: if_splits option.splits sum.splits)

lemma load_loop_fields:
  "load_loop json_loads fh records = Inr rs \<Longrightarrow>
   \<forall>r\<in>set records. map fst r = FIELD_NAMES \<Longrightarrow> \<forall>r\<in>set rs. map fst r = FIELD_NAMES"
proof (induction fh arbitrary: records)
  case Nil
  then show ?case by simp
next
  case (Cons raw fh)
  show ?case
  proof (cases "parse_line json_loads raw")
    case (Inl e)
    with Cons.prems show ?thesis by simp
  next
    case (Inr r)
    show ?thesis
    proof (cases r)
      case None
      with Inr Cons show ?thesis by simp
    next
      case (Some rec)
      with Inr parse_line_fields have "map fst rec = FIELD_NAMES" by blast
      with Some Inr Cons.prems Cons.IH [of "records @ [rec]"] Cons.IH [of records]
      show ?thesis by (simp split: if_splits)
    qed
  qed
qed

lemma load_loop_blank:
  "\<forall>raw\<in>set fh. strip raw = [] \<or> json_loads (strip raw) = Inl JSONDecodeError \<Longrightarrow>
   load_loop json_loads fh records = Inr records"
proof (induction fh)
  case Nil
  show ?case by simp
next
  case (Cons raw fh)
  then have "parse_line json_loads raw = Inr None"
    by (auto simp: parse_line_def Let_def)
  with Cons show ?case by simp
qed

text \<open>
  C9.  The upload issues \<open>clear\<close>, then one \<open>append_row\<close> with the column labels, then
  one \<open>append_rows\<close> per chunk of 1000 rows in ascending row order, \<open>ceil(n / 1000)\<close> of
  them, whose rows together are the rows of the table.  Whatever the worksheet held
  before, it holds the labels and the rows afterwards.  For the table of
  \<open>load_findings\<close> the labels are the eleven field names and there is at least one row.
\<close>

theorem upload_dataframe_calls:
  "upload_dataframe df =
     Clear # Append_row (map JStr (columns df))
       # map (\<lambda>k. Append_rows (chunk_at upload_UPLOAD_CHUNK (cells df) k))
           [0..<n_chunks upload_UPLOAD_CHUNK (length (cells df))]
   \<and> n_chunks upload_UPLOAD_CHUNK (length (cells df)) = (length (cells df) + 999) div 1000
   \<and> concat (map (chunk_at upload_UPLOAD_CHUNK (cells df))
                [0..<n_chunks upload_UPLOAD_CHUNK (length (cells df))]) = cells df
   \<and> grid_run (upload_dataframe df) g = Some (map JStr (columns df) # cells df)
   \<and> (load_findings json_loads fh = Inr df \<longrightarrow> columns df = FIELD_NAMES \<and> cells df \<noteq> [])"
proof (intro conjI impI)
  let ?c = upload_UPLOAD_CHUNK
  let ?n = "n_chunks ?c (length (cells df))"
  have c: "0 < ?c" by (simp add: upload_UPLOAD_CHUNK_def)
  show calls: "upload_dataframe df =
     Clear # Append_row (map JStr (columns df))
       # map (\<lambda>k. Append_rows (chunk_at ?c (cells df) k)) [0..<?n]"
    using append_loop_from [OF c, of "cells df" 0] by (simp add: upload_dataframe_def)
  show "?n = (length (cells df) + 999) div 1000"
    by (simp add: n_chunks_def upload_UPLOAD_CHUNK_def)
  show whole: "concat (map (chunk_at ?c (cells df)) [0..<?n]) = cells df"
    using concat_chunks_from [OF c, of "cells df" 0] by simp
  have "map (\<lambda>k. Append_rows (chunk_at ?c (cells df) k)) [0..<?n]
          = map Append_rows (map (chunk_at ?c (cells df)) [0..<?n])"
    by simp
  then show "grid_run (upload_dataframe df) g = Some (map JStr (columns df) # cells df)"
    unfolding calls by (simp only: grid_run.simps grid_apply.simps option.case
        grid_run_appends whole append_Nil append_Cons)
next
  assume lf: "load_findings json_loads fh = Inr df"
  then obtain records where rs: "load_loop json_loads fh [] = Inr records"
      "records \<noteq> []" "df = DataFrame records"
    by (auto simp: load_findings_def split: sum.splits if_splits)
  from load_loop_fields [OF rs(1)] have "\<forall>r\<in>set records. map fst r = FIELD_NAMES" by simp
  with rs(2,3) show "columns df = FIELD_NAMES" by (cases records) (simp_all add: DataFrame_def)
  from rs(2,3) show "cells df \<noteq> []" by (simp add: DataFrame_def)
qed

theorem upload_dataframe_calls_witness:
  "load_findings (\<lambda>s. Inr (JObj [(str ''DetectorName'', JStr (str ''AWS''))])) [str ''{}'']
     = Inr \<lparr>columns = FIELD_NAMES,
            cells = [[JNull, JNull, JNull, JNull, JNull, JNull, JNull, JStr (str ''AWS''), JNull,
                      JNull, JNull]]\<rparr>
   \<and> columns \<lparr>columns = FIELD_NAMES,
               cells = [[JNull, JNull, JNull, JNull, JNull, JNull, JNull, JStr (str ''AWS''), JNull,
                      JNull, JNull]]\<rparr> = FIELD_NAMES
   \<and> grid_run (upload_dataframe \<lparr>columns = FIELD_NAMES,
            cells = [[JNull, JNull, JNull, JNull, JNull, JNull, JNull, JStr (str ''AWS''), JNull,
                      JNull, JNull]]\<rparr>) [[JStr (str ''old'')]]
       = Some [map JStr FIELD_NAMES,
               [JNull, JNull, JNull, JNull, JNull, JNull, JNull, JStr (str ''AWS''), JNull,
                JNull, JNull]]"
proof -
  let ?df = "\<lparr>columns = FIELD_NAMES,
            cells = [[JNull, JNull, JNull, JNull, JNull, JNull, JNull, JStr (str ''AWS''), JNull,
                      JNull, JNull]]\<rparr>"
  have lf: "load_findings (\<lambda>s. Inr (JObj [(str ''DetectorName'', JStr (str ''AWS''))])) [str ''{}''] = Inr ?df"
    by (simp add: load_findings_def parse_line_def strip_def is_space_def str_def bind_err_def
        py_get_def py_or_def DataFrame_def FIELD_NAMES_def)
  note calls = upload_dataframe_calls [of ?df "[[JStr (str ''old'')]]"
      "\<lambda>s. Inr (JObj [(str ''DetectorName'', JStr (str ''AWS''))])" "[str ''{}'']"]
  from calls have run: "grid_run (upload_dataframe ?df) [[JStr (str ''old'')]]
      = Some (map JStr (columns ?df) # cells ?df)"
    by blast
  from calls lf have cols: "columns ?df = FIELD_NAMES"
    by blast
  from lf cols run show ?thesis by simp
qed

text \<open>
  C10.  When every line of the input file is blank after trimming or is refused by
  \<open>json.loads\<close> with a JSONDecodeError, the run ends in a \<open>sys.exit\<close> before
  \<open>connect_sheet\<close>: no call is issued.
\<close>

theorem upload_main_no_findings:
  assumes "\<forall>raw\<in>set fh. strip raw = [] \<or> json_loads (strip raw) = Inl JSONDecodeError"
  shows "upload_main key_exists json_loads fh ws_found =
    (Inl (SystemExit
       (if key_exists
        then str ''[INFO] No findings found '' @ [0x2013] @ str '' exiting.''
        else str ''[FATAL] Service-account key 'aalok-spreadsheet_credentials.json' not found.'')),
     [])"
  using load_loop_blank [OF assms, of "[]"]
  by (simp add: upload_main_def load_findings_def)

theorem upload_main_no_findings_witness:
  "strip ([0x00A0] @ str '' '' @ [0x3000]) = []
   \<and> (\<lambda>s. Inl JSONDecodeError :: error + json) (strip (str ''not json'')) = Inl JSONDecodeError
   \<and> upload_main True (\<lambda>s. Inl JSONDecodeError)
         [[0x00A0] @ str '' '' @ [0x3000], str ''not json''] False =
       (Inl (SystemExit (str ''[INFO] No findings found '' @ [0x2013]
                         @ str '' exiting.'')), [])"
proof -
  have blank: "strip ([0x00A0] @ str '' '' @ [0x3000]) = []"
    by (simp add: strip_def is_space_def str_def)
  have h: "\<forall>raw\<in>set [[0x00A0] @ str '' '' @ [0x3000], str ''not json''].
             strip raw = [] \<or> (\<lambda>s. Inl JSONDecodeError :: error + json) (strip raw)
                                  = Inl JSONDecodeError"
    by simp
  from upload_main_no_findings [OF h, of True False] blank show ?thesis by simp
qed

text \<open>
  C7 fails on a line that is a JSON document but not an object: for the line \<open>[]\<close>,
  which \<open>json.loads\<close> turns into the empty list, \<open>obj.get\<close> raises AttributeError and
  the exception leaves \<open>parse_line\<close>.
\<close>

theorem parse_line_list_raises:
  "parse_line (\<lambda>s. Inr (JArr [])) (str ''[]'') = Inl AttributeError"
  by (simp add: parse_line_def strip_def is_space_def str_def bind_err_def py_get_def)

end
